theory Spec2Isabelle
  imports Complex_Main "HOL-Library.Word"
begin

section \<open>The ECHONET Lite frame codec (class EchonetData)\<close>

text \<open>
  A shallow embedding of the class \<open>EchonetData\<close>: the factory \<open>create\<close>, the decoder
  \<open>parse\<close>, the accessors \<open>getEdt\<close> and \<open>getEdtAsBigInt\<close>, \<open>isValidResponse\<close> and the
  encoder \<open>toBuffer\<close>.

  A JavaScript \<open>number\<close> that holds an integer is an \<open>int\<close>; a \<open>bigint\<close> is an \<open>int\<close>; a
  \<open>Buffer\<close> is a list of 8-bit words. Only the \<open>edt\<close> argument of \<open>create\<close> is tested by the
  code for being an integer, so only there a \<open>number\<close> is modelled with its non-integer
  values. Every \<open>throw\<close> is a value \<open>Inl e\<close> of the result.
\<close>

subsection \<open>Data\<close>

type_synonym byte = "8 word"
type_synonym Buffer = "byte list"

text \<open>interface EchonetProperty \<open>{ epc: number; pdc: number; edt: bigint }\<close>\<close>

record EchonetProperty =
  epc :: int
  pdc :: int
  edt :: int

text \<open>The five fields of the private constructor of EchonetData.\<close>

record EchonetData =
  tid :: int
  seoj :: int
  deoj :: int
  esv :: int
  properties :: "EchonetProperty list"

text \<open>
  The exceptions of the code. \<open>EdtTypeError\<close> and \<open>EdtRangeError\<close> are the TypeError and the
  RangeError of \<open>create\<close>; the next four are the \<open>Error\<close>s of \<open>parse\<close>, named by their
  messages; \<open>PropertyNotFound\<close> and \<open>CannotConvertToNumber\<close> are the \<open>Error\<close>s of the
  accessors; \<open>BufferOutOfRange\<close> is the RangeError (ERR_OUT_OF_RANGE) that the Buffer
  methods \<open>readUInt16BE\<close>, \<open>writeUInt16BE\<close> and \<open>writeUIntBE\<close> raise for an offset outside
  the buffer or a value outside the width; \<open>BigIntSyntaxError\<close> is the SyntaxError of
  \<open>BigInt(string)\<close>.
\<close>

datatype error =
    EdtTypeError
  | EdtRangeError
  | InvalidHeader
  | FrameTooShort
  | EpcOrPdcMissing
  | EdtIncomplete
  | PropertyNotFound
  | CannotConvertToNumber
  | BufferOutOfRange
  | BigIntSyntaxError

text \<open>
  A \<open>number\<close> as the test \<open>!Number.isInteger(edt) || edt < 0\<close> sees it: a finite value
  (every finite double is a rational), NaN, or one of the infinities.
\<close>

datatype js_number = Finite rat | NaN | PosInfinity | NegInfinity

text \<open>The optional argument \<open>edt?: number | bigint\<close> of a property given to \<open>create\<close>.\<close>

datatype edt_arg = EdtNumber js_number | EdtBigInt int | EdtUndefined

subsection \<open>Strings of hexadecimal digits\<close>

text \<open>The digit characters \<open>0123456789abcdef\<close> that \<open>toString(16)\<close> and \<open>toString("hex")\<close> write.\<close>

definition hexDigit :: "nat \<Rightarrow> char" where
  "hexDigit d = (if d < 10 then char_of (48 + d) else char_of (87 + d))"

text \<open>The value of a digit as \<open>Buffer.from(s, "hex")\<close> and \<open>BigInt("0x...")\<close> read it: both cases of a letter.\<close>

definition hexVal :: "char \<Rightarrow> nat option" where
  "hexVal c =
     (let k = (of_char c :: nat)
      in if 48 \<le> k \<and> k \<le> 57 then Some (k - 48)
         else if 97 \<le> k \<and> k \<le> 102 then Some (k - 87)
         else if 65 \<le> k \<and> k \<le> 70 then Some (k - 55)
         else None)"

text \<open>\<open>toString(16)\<close> of a non-negative bigint: no leading zero, one digit for zero.\<close>

fun toHex :: "nat \<Rightarrow> string" where
  "toHex n = (if n < 16 then [hexDigit n] else toHex (n div 16) @ [hexDigit (n mod 16)])"

declare toHex.simps [simp del]

text \<open>\<open>edt.toString(16)\<close> of a bigint: a minus sign before the digits of a negative value.\<close>

definition toString16 :: "int \<Rightarrow> string" where
  "toString16 v = (if v < 0 then CHR ''-'' # toHex (nat (- v)) else toHex (nat v))"

text \<open>\<open>s.padStart(n, "0")\<close>: zeros on the left up to length \<open>n\<close>, nothing removed from a longer string.\<close>

definition padStart :: "nat \<Rightarrow> string \<Rightarrow> string" where
  "padStart n s = replicate (n - length s) CHR ''0'' @ s"

text \<open>
  \<open>Buffer.from(s, "hex")\<close>: one byte for each pair of digits, from the left; decoding stops
  at the first pair that is not two hexadecimal digits, and a last single character is dropped.
\<close>

fun fromHex :: "string \<Rightarrow> Buffer" where
  "fromHex (a # b # cs) =
     (case hexVal a of
        None \<Rightarrow> []
      | Some x \<Rightarrow> (case hexVal b of
                    None \<Rightarrow> []
                  | Some y \<Rightarrow> of_nat (16 * x + y) # fromHex cs))"
| "fromHex cs = []"

text \<open>\<open>buf.toString("hex")\<close>: two lower-case digits for each byte.\<close>

definition toStringHex :: "Buffer \<Rightarrow> string" where
  "toStringHex buf = concat (map (\<lambda>b. [hexDigit (unat b div 16), hexDigit (unat b mod 16)]) buf)"

text \<open>
  \<open>BigInt("0x" + s)\<close>: the value of the digits; a SyntaxError (\<open>None\<close>) when there is no digit
  or when a character is not a hexadecimal digit.
\<close>

fun hexDigitsValue :: "nat \<Rightarrow> string \<Rightarrow> nat option" where
  "hexDigitsValue acc [] = Some acc"
| "hexDigitsValue acc (c # cs) =
     (case hexVal c of None \<Rightarrow> None | Some d \<Rightarrow> hexDigitsValue (16 * acc + d) cs)"

definition BigInt0x :: "string \<Rightarrow> int option" where
  "BigInt0x s = (if s = [] then None else map_option int (hexDigitsValue 0 s))"

subsection \<open>Buffers\<close>

text \<open>\<open>Buffer.alloc(n)\<close>: \<open>n\<close> zero bytes.\<close>

definition alloc :: "nat \<Rightarrow> Buffer" where
  "alloc n = replicate n 0"

text \<open>
  \<open>src.copy(target)\<close>: the first bytes of \<open>target\<close> are overwritten with those of \<open>src\<close>, as
  many as both buffers have; the result is the target afterwards.
\<close>

definition copy :: "Buffer \<Rightarrow> Buffer \<Rightarrow> Buffer" where
  "copy src target = take (length target) src @ drop (length src) target"

text \<open>
  The reads of \<open>parse\<close>. Each is used below only behind a test of the buffer's length, which
  is where the Buffer methods would raise ERR_OUT_OF_RANGE.
\<close>

definition readUInt8 :: "Buffer \<Rightarrow> nat \<Rightarrow> int" where
  "readUInt8 frame offset = uint (frame ! offset)"

definition readUInt16BE :: "Buffer \<Rightarrow> nat \<Rightarrow> int" where
  "readUInt16BE frame offset = uint (frame ! offset) * 256 + uint (frame ! (offset + 1))"

definition readUIntBE3 :: "Buffer \<Rightarrow> nat \<Rightarrow> int" where
  "readUIntBE3 frame offset =
     (uint (frame ! offset) * 256 + uint (frame ! (offset + 1))) * 256 + uint (frame ! (offset + 2))"

definition subarray :: "Buffer \<Rightarrow> nat \<Rightarrow> nat \<Rightarrow> Buffer" where
  "subarray frame start end = take (end - start) (drop start frame)"

text \<open>
  The writes of \<open>toBuffer\<close> into a fresh buffer of 2 or 3 bytes. \<open>writeUInt16BE\<close> and
  \<open>writeUIntBE(v, 0, 3)\<close> raise ERR_OUT_OF_RANGE for a value outside the width.
  \<open>Buffer.from([v])\<close> raises nothing: it keeps \<open>v\<close> modulo 256, which is \<open>of_int\<close> on bytes.
\<close>

definition writeUInt16BE :: "int \<Rightarrow> error + Buffer" where
  "writeUInt16BE v =
     (if v < 0 \<or> v > 0xffff then Inl BufferOutOfRange
      else Inr [of_int (v div 256), of_int v])"

definition writeUIntBE3 :: "int \<Rightarrow> error + Buffer" where
  "writeUIntBE3 v =
     (if v < 0 \<or> v > 0xffffff then Inl BufferOutOfRange
      else Inr [of_int (v div 65536), of_int (v div 256), of_int v])"

definition fromArray1 :: "int \<Rightarrow> Buffer" where
  "fromArray1 v = [of_int v]"

subsection \<open>create\<close>

text \<open>
  \<open>Math.floor(Math.random() * 0xffff)\<close>, for the value \<open>r\<close> that \<open>Math.random()\<close> returned
  (\<open>0 \<le> r < 1\<close>); the product is taken exactly.
\<close>

definition randomTid :: "rat \<Rightarrow> int" where
  "randomTid r = \<lfloor>r * 0xffff\<rfloor>"

text \<open>\<open>Number.isInteger\<close> and \<open>edt < 0\<close> on a number.\<close>

fun isInteger :: "js_number \<Rightarrow> bool" where
  "isInteger (Finite q) = (of_int \<lfloor>q\<rfloor> = q)"
| "isInteger x = False"

fun isNegative :: "js_number \<Rightarrow> bool" where
  "isNegative (Finite q) = (q < 0)"
| "isNegative NegInfinity = True"
| "isNegative x = False"

text \<open>\<open>BigInt(edt)\<close> for a number that passed the test: it is a finite integer.\<close>

fun BigIntOfNumber :: "js_number \<Rightarrow> int" where
  "BigIntOfNumber (Finite q) = \<lfloor>q\<rfloor>"
| "BigIntOfNumber x = 0"

text \<open>The first part of the callback of \<open>properties.map\<close>: the value of \<open>edtBigInt\<close>, or the throw.\<close>

fun edtBigInt :: "edt_arg \<Rightarrow> error + int" where
  "edtBigInt (EdtNumber x) =
     (if \<not> isInteger x \<or> isNegative x then Inl EdtTypeError else Inr (BigIntOfNumber x))"
| "edtBigInt (EdtBigInt v) = (if v < 0 then Inl EdtRangeError else Inr v)"
| "edtBigInt EdtUndefined = Inr 0"

text \<open>\<open>Math.ceil(edtBigInt.toString(16).length / 2)\<close>\<close>

definition calculatedPdc :: "int \<Rightarrow> int" where
  "calculatedPdc v = int ((length (toString16 v) + 1) div 2)"

text \<open>The callback of \<open>properties.map\<close>.\<close>

definition createProperty :: "int \<times> edt_arg \<Rightarrow> error + EchonetProperty" where
  "createProperty p =
     (case edtBigInt (snd p) of
        Inl e \<Rightarrow> Inl e
      | Inr v \<Rightarrow> Inr \<lparr>epc = fst p, pdc = calculatedPdc v, edt = v\<rparr>)"

text \<open>\<open>properties.map(...)\<close>: the first property whose callback throws ends the call.\<close>

fun createProperties :: "(int \<times> edt_arg) list \<Rightarrow> error + EchonetProperty list" where
  "createProperties [] = Inr []"
| "createProperties (p # ps) =
     (case createProperty p of
        Inl e \<Rightarrow> Inl e
      | Inr q \<Rightarrow> (case createProperties ps of Inl e \<Rightarrow> Inl e | Inr qs \<Rightarrow> Inr (q # qs)))"

text \<open>
  \<open>EchonetData.create({tid, seoj, deoj, esv, properties})\<close>; the first argument is the value
  \<open>Math.random()\<close> returns in this call, and \<open>tid\<close> is \<open>None\<close> when it is omitted.
\<close>

definition create ::
  "rat \<Rightarrow> int option \<Rightarrow> int \<Rightarrow> int \<Rightarrow> int \<Rightarrow> (int \<times> edt_arg) list \<Rightarrow> error + EchonetData" where
  "create r tid' seoj' deoj' esv' props =
     (case createProperties props of
        Inl e \<Rightarrow> Inl e
      | Inr ps \<Rightarrow>
          Inr \<lparr>tid = (case tid' of None \<Rightarrow> randomTid r | Some t \<Rightarrow> t),
               seoj = seoj', deoj = deoj', esv = esv', properties = ps\<rparr>)"

subsection \<open>parse\<close>

text \<open>
  The loop \<open>for (let i = 0; i < opc; i++)\<close>: the first argument counts the iterations that
  remain, \<open>offset\<close> and the list \<open>props\<close> are the loop's variables.
\<close>

fun parseProperties ::
  "nat \<Rightarrow> Buffer \<Rightarrow> nat \<Rightarrow> EchonetProperty list \<Rightarrow> error + EchonetProperty list" where
  "parseProperties 0 frame offset props = Inr props"
| "parseProperties (Suc n) frame offset props =
     (if length frame < offset + 2 then Inl EpcOrPdcMissing
      else
        let epc' = readUInt8 frame offset;
            pdc' = readUInt8 frame (offset + 1);
            offset' = offset + 2
        in if length frame < offset' + nat pdc' then Inl EdtIncomplete
           else
             (case (if pdc' > 0
                    then BigInt0x (toStringHex (subarray frame offset' (offset' + nat pdc')))
                    else Some 0) of
                None \<Rightarrow> Inl BigIntSyntaxError
              | Some edt' \<Rightarrow>
                  parseProperties n frame (offset' + nat pdc')
                    (props @ [\<lparr>epc = epc', pdc = pdc', edt = edt'\<rparr>])))"

declare parseProperties.simps [simp del]

text \<open>
  \<open>EchonetData.parse(frame)\<close>. The header is read before the length is tested, so a buffer
  of fewer than two bytes ends in the RangeError of \<open>readUInt16BE\<close>.
\<close>

definition parse :: "Buffer \<Rightarrow> error + EchonetData" where
  "parse frame =
     (if length frame < 2 then Inl BufferOutOfRange
      else if readUInt16BE frame 0 \<noteq> 0x1081 then Inl InvalidHeader
      else if length frame < 12 then Inl FrameTooShort
      else
        (case parseProperties (nat (readUInt8 frame 11)) frame 12 [] of
           Inl e \<Rightarrow> Inl e
         | Inr ps \<Rightarrow>
             Inr \<lparr>tid = readUInt16BE frame 2,
                  seoj = readUIntBE3 frame 4,
                  deoj = readUIntBE3 frame 7,
                  esv = readUInt8 frame 10,
                  properties = ps\<rparr>))"

subsection \<open>Accessors and response validation\<close>

text \<open>
  \<open>Number(property.edt)\<close>: exact up to \<open>2^53\<close> in magnitude; beyond, the nearest double, which
  the function \<open>round53\<close> stands for.
\<close>

definition NumberOfBigInt :: "(int \<Rightarrow> int) \<Rightarrow> int \<Rightarrow> int" where
  "NumberOfBigInt round53 v = (if \<bar>v\<bar> \<le> 2 ^ 53 then v else round53 v)"

definition getEdt :: "(int \<Rightarrow> int) \<Rightarrow> EchonetData \<Rightarrow> int \<Rightarrow> error + int" where
  "getEdt round53 d code =
     (case find (\<lambda>property. epc property = code) (properties d) of
        None \<Rightarrow> Inl PropertyNotFound
      | Some property \<Rightarrow>
          if pdc property > 6 then Inl CannotConvertToNumber
          else Inr (NumberOfBigInt round53 (edt property)))"

definition getEdtAsBigInt :: "EchonetData \<Rightarrow> int \<Rightarrow> error + int" where
  "getEdtAsBigInt d code =
     (case find (\<lambda>property. epc property = code) (properties d) of
        None \<Rightarrow> Inl PropertyNotFound
      | Some property \<Rightarrow> Inr (edt property))"

definition isValidResponse :: "EchonetData \<Rightarrow> EchonetData \<Rightarrow> bool" where
  "isValidResponse this response \<longleftrightarrow>
     deoj this = seoj response \<and> seoj this = deoj response \<and> tid this = tid response"

subsection \<open>toBuffer\<close>

text \<open>The callback of \<open>this.properties.map\<close> in \<open>toBuffer\<close>: the bytes of one property.\<close>

definition edtBuffer :: "EchonetProperty \<Rightarrow> Buffer" where
  "edtBuffer p =
     (if pdc p > 0
      then copy (fromHex (padStart (nat (pdc p * 2)) (toString16 (edt p)))) (alloc (nat (pdc p)))
      else alloc 0)"

definition propertyBuffer :: "EchonetProperty \<Rightarrow> Buffer" where
  "propertyBuffer p = fromArray1 (epc p) @ fromArray1 (pdc p) @ edtBuffer p"

definition toBuffer :: "EchonetData \<Rightarrow> error + Buffer" where
  "toBuffer d =
     (case writeUInt16BE (tid d) of
        Inl e \<Rightarrow> Inl e
      | Inr tidBuffer \<Rightarrow>
     (case writeUIntBE3 (seoj d) of
        Inl e \<Rightarrow> Inl e
      | Inr seojBuffer \<Rightarrow>
     (case writeUIntBE3 (deoj d) of
        Inl e \<Rightarrow> Inl e
      | Inr deojBuffer \<Rightarrow>
          Inr ([0x10, 0x81] @ tidBuffer @ seojBuffer @ deojBuffer @ fromArray1 (esv d)
               @ fromArray1 (int (length (properties d)))
               @ concat (map propertyBuffer (properties d))))))"

subsection \<open>Notions used to state the properties\<close>

text \<open>The digits of \<open>n\<close> in a field of exactly \<open>k\<close> hexadecimal digits, the most significant first.\<close>

fun hexFixed :: "nat \<Rightarrow> nat \<Rightarrow> string" where
  "hexFixed 0 n = []"
| "hexFixed (Suc k) n = hexFixed k (n div 16) @ [hexDigit (n mod 16)]"

text \<open>The big-endian encoding of \<open>v\<close> in exactly \<open>k\<close> bytes: the low-order \<open>k\<close> bytes of \<open>v\<close>.\<close>

fun bigEndian :: "nat \<Rightarrow> nat \<Rightarrow> Buffer" where
  "bigEndian 0 v = []"
| "bigEndian (Suc k) v = bigEndian k (v div 256) @ [of_nat v]"

text \<open>The unsigned integer that a sequence of bytes denotes in big-endian order.\<close>

definition beValue :: "Buffer \<Rightarrow> nat" where
  "beValue bs = foldl (\<lambda>a b. 256 * a + unat b) 0 bs"

text \<open>A property whose value fits in its length: \<open>0 \<le> edt < 256 ^ pdc\<close>.\<close>

definition propertyFits :: "EchonetProperty \<Rightarrow> bool" where
  "propertyFits p \<longleftrightarrow> 0 \<le> edt p \<and> edt p < 256 ^ nat (pdc p)"

text \<open>A property as the wire format carries it: code and length are bytes, the value fits.\<close>

definition wireProperty :: "EchonetProperty \<Rightarrow> bool" where
  "wireProperty p \<longleftrightarrow>
     0 \<le> epc p \<and> epc p < 256 \<and> 0 \<le> pdc p \<and> pdc p < 256 \<and> propertyFits p"

text \<open>\<open>parse(serialize(F))\<close>: the frame is serialized and the bytes are parsed again.\<close>

definition roundTrip :: "EchonetData \<Rightarrow> error + EchonetData" where
  "roundTrip d = (case toBuffer d of Inl e \<Rightarrow> Inl e | Inr buf \<Rightarrow> parse buf)"

text \<open>
  The values that the specification of the construction rejects: a number that is negative
  or not an integer, and a negative arbitrary-precision integer.
\<close>

fun invalidValue :: "edt_arg \<Rightarrow> bool" where
  "invalidValue (EdtNumber x) = (isNegative x \<or> \<not> isInteger x)"
| "invalidValue (EdtBigInt v) = (v < 0)"
| "invalidValue EdtUndefined = False"

section \<open>Hexadecimal strings and big-endian bytes\<close>

lemma hexVal_hexDigit: "d < 16 \<Longrightarrow> hexVal (hexDigit d) = Some d"
  by (auto simp: hexVal_def hexDigit_def Let_def)

lemma hexDigit_0: "hexDigit 0 = CHR ''0''"
  by (simp add: hexDigit_def char_of_def bit_Suc_0_iff)

lemma length_hexFixed [simp]: "length (hexFixed k n) = k"
  by (induction k arbitrary: n) auto

lemma hexFixed_0: "hexFixed k 0 = replicate k CHR ''0''"
  by (induction k) (auto simp: hexDigit_0 replicate_append_same)

lemma padStart_snoc: "padStart (Suc n) (t @ [c]) = padStart n t @ [c]"
  by (simp add: padStart_def)

lemma padStart_toHex:
  "0 < k \<Longrightarrow> n < 16 ^ k \<Longrightarrow> padStart k (toHex n) = hexFixed k n"
proof (induction k arbitrary: n)
  case 0
  then show ?case by simp
next
  case (Suc k)
  show ?case
  proof (cases "n < 16")
    case True
    then show ?thesis
      by (simp add: toHex.simps [of n] padStart_def hexFixed_0)
  next
    case False
    then have k: "0 < k" using Suc.prems by (cases k) auto
    have "n div 16 < 16 ^ k" using Suc.prems by (simp add: less_mult_imp_div_less mult.commute)
    with k have "padStart k (toHex (n div 16)) = hexFixed k (n div 16)"
      by (rule Suc.IH)
    with False show ?thesis
      by (simp add: toHex.simps [of n] padStart_snoc)
  qed
qed

lemma toHex_nonempty: "toHex n \<noteq> []"
  by (subst toHex.simps) simp

lemma toHex_upper: "n < 16 ^ length (toHex n)"
proof (induction n rule: toHex.induct)
  case (1 n)
  show ?case
  proof (cases "n < 16")
    case True
    then show ?thesis by (simp add: toHex.simps [of n])
  next
    case False
    with 1 have "n div 16 < 16 ^ length (toHex (n div 16))" by simp
    then have "n < 16 * 16 ^ length (toHex (n div 16))"
      by (simp add: div_less_iff_less_mult mult.commute)
    with False show ?thesis by (simp add: toHex.simps [of n])
  qed
qed

lemma toHex_lower: "0 < n \<Longrightarrow> 16 ^ (length (toHex n) - 1) \<le> n"
proof (induction n rule: toHex.induct)
  case (1 n)
  show ?case
  proof (cases "n < 16")
    case True
    with 1 show ?thesis by (simp add: toHex.simps [of n])
  next
    case False
    then have "0 < n div 16" by (simp add: div_greater_zero_iff)
    with 1 False have "16 ^ (length (toHex (n div 16)) - 1) \<le> n div 16" by simp
    then have "16 * 16 ^ (length (toHex (n div 16)) - 1) \<le> n"
      by (simp add: less_eq_div_iff_mult_less_eq mult.commute)
    moreover have "length (toHex (n div 16)) \<noteq> 0" using toHex_nonempty by simp
    ultimately show ?thesis using False
      by (simp add: toHex.simps [of n] power_Suc [symmetric] del: power_Suc)
  qed
qed

lemma toHex_hexFixed: "toHex n = hexFixed (length (toHex n)) n"
proof -
  have "0 < length (toHex n)" using toHex_nonempty by simp
  then have "padStart (length (toHex n)) (toHex n) = hexFixed (length (toHex n)) n"
    using toHex_upper by (rule padStart_toHex)
  then show ?thesis by (simp add: padStart_def)
qed

lemma take_hexFixed: "take j (hexFixed (j + m) v) = hexFixed j (v div 16 ^ m)"
  by (induction m arbitrary: v) (auto simp: div_mult2_eq)

lemma fromHex_append:
  "even (length s) \<Longrightarrow> \<forall>c\<in>set s. hexVal c \<noteq> None \<Longrightarrow> fromHex (s @ t) = fromHex s @ fromHex t"
proof (induction s rule: fromHex.induct)
  case (1 a b cs)
  then show ?case by (auto split: option.splits)
qed simp_all

lemma hexVal_hexFixed: "\<forall>c\<in>set (hexFixed k n). hexVal c \<noteq> None"
  by (induction k arbitrary: n) (auto simp: hexVal_hexDigit)

lemma byte_of_nibbles: "(of_nat (16 * (w div 16 mod 16) + w mod 16) :: byte) = of_nat w"
proof -
  have e: "(16 * (w div 16 mod 16) + w mod 16) mod 256 = w mod 256"
    using mod_mult2_eq [of w 16 16] by simp
  show ?thesis
    by (simp only: word_of_nat_eq_iff take_bit_eq_mod) (simp add: e)
qed

lemma fromHex_hexFixed: "fromHex (hexFixed (2 * k) w) = bigEndian k w"
proof (induction k arbitrary: w)
  case 0
  then show ?case by simp
next
  case (Suc k)
  have e: "w div 16 div 16 = w div 256"
    using div_mult2_eq [of w 16 16] by simp
  have "hexFixed (2 * Suc k) w =
          hexFixed (2 * k) (w div 256) @ [hexDigit (w div 16 mod 16), hexDigit (w mod 16)]"
    by (simp add: e)
  moreover have "fromHex [hexDigit (w div 16 mod 16), hexDigit (w mod 16)] = [of_nat w]"
    using byte_of_nibbles [of w] by (simp add: hexVal_hexDigit del: of_nat_add of_nat_mult)
  ultimately show ?case
    using Suc.IH [of "w div 256"]
    by (simp add: fromHex_append hexVal_hexFixed del: hexFixed.simps fromHex.simps)
qed

lemma length_bigEndian [simp]: "length (bigEndian k v) = k"
  by (induction k arbitrary: v) auto

lemma fromHex_take_single: "fromHex (take n [c]) = []"
  by (cases n) simp_all

lemma take_fromHex: "take k (fromHex s) = fromHex (take (2 * k) s)"
proof (induction s arbitrary: k rule: fromHex.induct)
  case (1 a b cs)
  show ?case
  proof (cases k)
    case 0
    then show ?thesis by simp
  next
    case (Suc j)
    then show ?thesis using 1 by (auto split: option.splits)
  qed
qed (simp_all add: fromHex_take_single)

lemma unat_byte_less: "unat (b :: byte) < 256"
  using unsigned_less [of b, where ?'a = nat] by simp

lemma beValue_snoc: "beValue (bs @ [b]) = 256 * beValue bs + unat b"
  by (simp add: beValue_def)

lemma beValue_bigEndian: "v < 256 ^ k \<Longrightarrow> beValue (bigEndian k v) = v"
proof (induction k arbitrary: v)
  case 0
  then show ?case by (simp add: beValue_def)
next
  case (Suc k)
  then have "v div 256 < 256 ^ k"
    by (simp add: less_mult_imp_div_less mult.commute)
  then have "beValue (bigEndian k (v div 256)) = v div 256" by (rule Suc.IH)
  then show ?case
    by (simp add: beValue_snoc unat_of_nat take_bit_eq_mod)
qed

lemma beValue_upper: "beValue bs < 256 ^ length bs"
proof (induction bs rule: rev_induct)
  case Nil
  then show ?case by (simp add: beValue_def)
next
  case (snoc b bs)
  have "unat b < 256" by (rule unat_byte_less)
  with snoc show ?case by (simp add: beValue_snoc)
qed

lemma bigEndian_beValue: "bigEndian (length bs) (beValue bs) = bs"
proof (induction bs rule: rev_induct)
  case Nil
  then show ?case by simp
next
  case (snoc b bs)
  have lt: "unat b < 256" by (rule unat_byte_less)
  then have "(256 * beValue bs + unat b) div 256 = beValue bs" by simp
  moreover have "(of_nat (256 * beValue bs + unat b) :: byte) = of_nat (unat b)"
    by (simp only: word_of_nat_eq_iff take_bit_eq_mod) simp
  then have "(of_nat (256 * beValue bs + unat b) :: byte) = b"
    by (simp del: of_nat_add of_nat_mult)
  ultimately show ?case using snoc by (simp add: beValue_snoc)
qed

lemma hexDigitsValue_toStringHex:
  "hexDigitsValue acc (toStringHex bs) = Some (foldl (\<lambda>a b. 256 * a + unat b) acc bs)"
proof (induction bs arbitrary: acc)
  case Nil
  then show ?case by (simp add: toStringHex_def)
next
  case (Cons b bs)
  have lt: "unat b < 256" by (rule unat_byte_less)
  then have d: "unat b div 16 < 16" "unat b mod 16 < 16" by auto
  have "16 * (16 * acc + unat b div 16) + unat b mod 16 = 256 * acc + unat b"
    using mult_div_mod_eq [of 16 "unat b"] by simp
  then have "hexDigitsValue acc (toStringHex (b # bs)) =
               hexDigitsValue (256 * acc + unat b) (toStringHex bs)"
    by (simp add: toStringHex_def hexVal_hexDigit d add.commute)
  with Cons [of "256 * acc + unat b"] show ?case
    by simp
qed

lemma BigInt0x_toStringHex: "bs \<noteq> [] \<Longrightarrow> BigInt0x (toStringHex bs) = Some (int (beValue bs))"
proof -
  assume "bs \<noteq> []"
  then have "toStringHex bs \<noteq> []" by (cases bs) (simp_all add: toStringHex_def)
  then show ?thesis
    by (simp add: BigInt0x_def hexDigitsValue_toStringHex beValue_def)
qed

section \<open>The bytes of one property\<close>

lemma copy_same_length: "length src = length target \<Longrightarrow> copy src target = src"
  by (simp add: copy_def)

lemma pow256: "(256::nat) ^ k = 16 ^ (2 * k)"
  by (simp add: power_mult)

lemma edtBuffer_general:
  assumes "0 \<le> edt p" and "0 \<le> pdc p"
  shows "edtBuffer p =
           bigEndian (nat (pdc p))
             (nat (edt p) div 16 ^ (length (toHex (nat (edt p))) - 2 * nat (pdc p)))"
proof (cases "pdc p > 0")
  case False
  with assms show ?thesis by (simp add: edtBuffer_def alloc_def)
next
  case True
  let ?k = "nat (pdc p)" and ?n = "nat (edt p)"
  let ?h = "length (toHex ?n)"
  let ?src = "fromHex (padStart (2 * ?k) (toHex ?n))"
  have k: "0 < ?k" using True by simp
  have k2: "nat (pdc p * 2) = 2 * ?k" using True by simp
  have s: "toString16 (edt p) = toHex ?n" using assms by (simp add: toString16_def)
  have src: "take ?k ?src = bigEndian ?k (?n div 16 ^ (?h - 2 * ?k))"
  proof (cases "?h \<le> 2 * ?k")
    case True
    have "?n < 16 ^ ?h" by (rule toHex_upper)
    also have "(16::nat) ^ ?h \<le> 16 ^ (2 * ?k)" using True by (simp add: power_increasing)
    finally have "padStart (2 * ?k) (toHex ?n) = hexFixed (2 * ?k) ?n"
      using k by (simp add: padStart_toHex)
    then have "?src = bigEndian ?k ?n" by (simp only: fromHex_hexFixed)
    with True show ?thesis by simp
  next
    case False
    then have "padStart (2 * ?k) (toHex ?n) = toHex ?n" by (simp add: padStart_def)
    moreover have "2 * ?k + (?h - 2 * ?k) = ?h" using False by simp
    then have "toHex ?n = hexFixed (2 * ?k + (?h - 2 * ?k)) ?n"
      using toHex_hexFixed [of ?n] by simp
    then have "take (2 * ?k) (toHex ?n) = hexFixed (2 * ?k) (?n div 16 ^ (?h - 2 * ?k))"
      using take_hexFixed [of "2 * ?k" "?h - 2 * ?k" ?n] by simp
    ultimately show ?thesis
      by (simp only: take_fromHex fromHex_hexFixed)
  qed
  have "length (take ?k ?src) = ?k" by (simp only: src length_bigEndian)
  then have "?k \<le> length ?src" by simp
  then have "copy ?src (alloc ?k) = take ?k ?src"
    by (simp add: copy_def alloc_def)
  then have "copy ?src (alloc ?k) = bigEndian ?k (?n div 16 ^ (?h - 2 * ?k))"
    by (simp only: src)
  moreover have "edtBuffer p = copy ?src (alloc ?k)"
    using True by (simp only: edtBuffer_def k2 s if_True)
  ultimately show ?thesis by simp
qed

lemma edtBuffer_fits:
  assumes "propertyFits p" and "0 \<le> pdc p"
  shows "edtBuffer p = bigEndian (nat (pdc p)) (nat (edt p))"
proof (cases "nat (pdc p)")
  case 0
  then show ?thesis using assms by (simp add: edtBuffer_def alloc_def)
next
  case (Suc j)
  have a: "0 \<le> edt p" and b: "nat (edt p) < 256 ^ nat (pdc p)"
    using assms by (simp_all add: propertyFits_def nat_less_iff)
  have "length (toHex (nat (edt p))) \<le> 2 * nat (pdc p)"
  proof (cases "nat (edt p) = 0")
    case True
    have "toHex 0 = [hexDigit 0]" by (simp add: toHex.simps [of 0])
    then show ?thesis using True Suc by simp
  next
    case False
    then have "0 < nat (edt p)" by simp
    then have "16 ^ (length (toHex (nat (edt p))) - 1) \<le> nat (edt p)"
      by (rule toHex_lower)
    also have "\<dots> < 16 ^ (2 * nat (pdc p))" using b by (simp add: pow256)
    finally have "length (toHex (nat (edt p))) - 1 < 2 * nat (pdc p)"
      by (simp add: power_strict_increasing_iff)
    then show ?thesis by simp
  qed
  then show ?thesis using edtBuffer_general [OF a assms(2)] by simp
qed

lemma length_edtBuffer: "0 \<le> edt p \<Longrightarrow> 0 \<le> pdc p \<Longrightarrow> length (edtBuffer p) = nat (pdc p)"
  by (simp add: edtBuffer_general)

section \<open>Serialized properties are parsed back\<close>

lemma uint_byte_of_int: "0 \<le> v \<Longrightarrow> v < 256 \<Longrightarrow> uint (of_int v :: byte) = v"
  by (simp add: uint_word_of_int)

lemma uint_byte_less: "uint (b :: byte) < 256"
  using uint_bounded [of b] by simp

lemma byte_of_int_low: "(of_int (x * 256 + y) :: byte) = of_int y"
  by (simp only: word_of_int_eq_iff take_bit_eq_mod) simp

lemma subarray_middle:
  "subarray (pre @ a # b # eb @ tail) (length pre + 2) (length pre + 2 + length eb) = eb"
  by (simp add: subarray_def)

lemma parseProperties_step:
  assumes "unat b = length eb"
  shows "parseProperties (Suc m) (pre @ a # b # eb @ tail) (length pre) acc =
           parseProperties m (pre @ a # b # eb @ tail) (length pre + 2 + length eb)
             (acc @ [\<lparr>epc = uint a, pdc = uint b,
                      edt = (if eb = [] then 0 else int (beValue eb))\<rparr>])"
proof -
  let ?frame = "pre @ a # b # eb @ tail"
  have k: "nat (uint b) = length eb" using assms by simp
  have pos: "0 < uint b \<longleftrightarrow> eb \<noteq> []" using assms by (cases eb) (auto simp: uint_nat)
  have rd: "readUInt8 ?frame (length pre) = uint a" "readUInt8 ?frame (length pre + 1) = uint b"
    by (simp_all add: readUInt8_def nth_append)
  have l1: "\<not> length ?frame < length pre + 2" by simp
  have l2: "\<not> length ?frame < length pre + 2 + length eb" by simp
  show ?thesis
  proof (cases "eb = []")
    case True
    with pos have "\<not> 0 < uint b" by simp
    then show ?thesis
      unfolding parseProperties.simps Let_def rd k
      using True l1 by simp
  next
    case False
    with pos have "0 < uint b" by simp
    then show ?thesis
      unfolding parseProperties.simps Let_def rd k subarray_middle
      using False l1 l2 by (simp add: BigInt0x_toStringHex)
  qed
qed

lemma propertyBuffer_wire:
  assumes "wireProperty p"
  shows "propertyBuffer p = of_int (epc p) # of_int (pdc p) # bigEndian (nat (pdc p)) (nat (edt p))"
  using assms by (simp add: propertyBuffer_def fromArray1_def wireProperty_def edtBuffer_fits)

lemma parseProperties_serialized:
  assumes "\<forall>p\<in>set ps. wireProperty p"
  shows "parseProperties (length ps) (pre @ concat (map propertyBuffer ps) @ rest) (length pre) acc
           = Inr (acc @ ps)"
  using assms
proof (induction ps arbitrary: pre acc)
  case Nil
  then show ?case by (simp add: parseProperties.simps)
next
  case (Cons p ps)
  let ?a = "of_int (epc p) :: byte" and ?b = "of_int (pdc p) :: byte"
  let ?eb = "bigEndian (nat (pdc p)) (nat (edt p))"
  let ?tail = "concat (map propertyBuffer ps) @ rest"
  from Cons.prems have w: "wireProperty p" and ws: "\<forall>q\<in>set ps. wireProperty q" by simp_all
  from w have ua: "uint ?a = epc p" and ub: "uint ?b = pdc p"
    by (simp_all add: wireProperty_def uint_byte_of_int)
  have "nat (uint ?b) = nat (pdc p)" by (simp only: ub)
  then have len: "unat ?b = length ?eb" by simp
  have fits: "0 \<le> edt p" "nat (edt p) < 256 ^ nat (pdc p)"
    using w by (simp_all add: wireProperty_def propertyFits_def nat_less_iff)
  have v: "(if ?eb = [] then 0 else int (beValue ?eb)) = edt p"
  proof (cases "nat (pdc p)")
    case 0
    with fits show ?thesis by simp
  next
    case (Suc j)
    then have "?eb \<noteq> []" by simp
    with fits show ?thesis by (simp add: beValue_bigEndian)
  qed
  have frame: "pre @ concat (map propertyBuffer (p # ps)) @ rest = pre @ ?a # ?b # ?eb @ ?tail"
    by (simp add: propertyBuffer_wire [OF w])
  have frame': "pre @ ?a # ?b # ?eb @ ?tail = (pre @ ?a # ?b # ?eb) @ ?tail"
    by simp
  have rec: "\<lparr>epc = uint ?a, pdc = uint ?b, edt = (if ?eb = [] then 0 else int (beValue ?eb))\<rparr> = p"
    by (simp only: v ua ub) simp
  have "parseProperties (length (p # ps)) (pre @ ?a # ?b # ?eb @ ?tail) (length pre) acc
          = parseProperties (length ps) (pre @ ?a # ?b # ?eb @ ?tail) (length pre + 2 + length ?eb)
              (acc @ [p])"
    using parseProperties_step [OF len, of "length ps" pre ?a ?tail acc]
    by (simp only: rec length_Cons)
  also have "\<dots> = parseProperties (length ps) ((pre @ ?a # ?b # ?eb) @ ?tail)
                      (length (pre @ ?a # ?b # ?eb)) (acc @ [p])"
    by (simp only: frame') simp
  also have "\<dots> = Inr ((acc @ [p]) @ ps)"
    using ws by (rule Cons.IH)
  finally show ?case by (simp only: frame) simp
qed

section \<open>Parsed properties are serialized back\<close>

lemma split_frame:
  assumes "off + 2 + k \<le> length frame"
  obtains pre a b eb tail where
    "frame = pre @ a # b # eb @ tail" and "length pre = off" and "length eb = k"
    and "a = frame ! off" and "b = frame ! (off + 1)"
proof -
  define pre where "pre = take off frame"
  define d where "d = drop off frame"
  have f: "frame = pre @ d" by (simp add: pre_def d_def)
  have lp: "length pre = off" using assms by (simp add: pre_def)
  have ld: "2 + k \<le> length d" using assms by (simp add: d_def)
  then obtain a d' where d: "d = a # d'" by (cases d) auto
  with ld obtain b rest where d': "d' = b # rest" by (cases d') auto
  define eb where "eb = take k rest"
  define tail where "tail = drop k rest"
  have "k \<le> length rest" using ld d d' by simp
  then have le: "length eb = k" by (simp add: eb_def)
  have fr: "frame = pre @ a # b # eb @ tail"
    by (simp add: f d d' eb_def tail_def)
  have "(pre @ a # b # eb @ tail) ! length pre = a"
       "(pre @ a # b # eb @ tail) ! (length pre + 1) = b"
    by (simp_all add: nth_append)
  then have na: "a = frame ! off" and nb: "b = frame ! (off + 1)"
    unfolding lp fr [symmetric] by simp_all
  show thesis by (rule that [OF fr lp le na nb])
qed

lemma parsed_property:
  fixes a b :: byte and eb :: Buffer
  defines "p \<equiv> \<lparr>epc = uint a, pdc = uint b, edt = (if eb = [] then 0 else int (beValue eb))\<rparr>"
  assumes "unat b = length eb"
  shows "wireProperty p" and "propertyBuffer p = a # b # eb"
proof -
  have k: "nat (pdc p) = length eb" using assms by simp
  have "beValue eb < 256 ^ length eb" by (rule beValue_upper)
  then have "int (beValue eb) < 256 ^ length eb"
    by (metis of_nat_less_iff of_nat_numeral of_nat_power)
  then have fits: "propertyFits p"
    unfolding propertyFits_def k by (simp add: p_def)
  then show w: "wireProperty p"
    using uint_byte_less [of a] uint_byte_less [of b]
    by (simp add: wireProperty_def p_def)
  have "bigEndian (length eb) (nat (edt p)) = eb"
  proof (cases "eb = []")
    case True
    then show ?thesis by simp
  next
    case False
    then show ?thesis by (simp add: p_def bigEndian_beValue)
  qed
  then show "propertyBuffer p = a # b # eb"
    unfolding propertyBuffer_wire [OF w] k by (simp add: p_def)
qed

lemma serialized_prefix:
  assumes "xs = take (length xs) tail"
  shows "(a # b # eb) @ xs = take (length ((a # b # eb) @ xs)) (a # b # eb @ tail)"
  using assms by simp

lemma parseProperties_sound:
  assumes "parseProperties m frame off acc = Inr ps" and "off \<le> length frame"
  shows "\<exists>new. ps = acc @ new \<and> length new = m \<and> (\<forall>p\<in>set new. wireProperty p)
           \<and> off + length (concat (map propertyBuffer new)) \<le> length frame
           \<and> concat (map propertyBuffer new)
               = take (length (concat (map propertyBuffer new))) (drop off frame)"
  using assms
proof (induction m arbitrary: off acc)
  case 0
  then show ?case by (simp add: parseProperties.simps)
next
  case (Suc m)
  from Suc.prems have l1: "\<not> length frame < off + 2"
    by (auto simp: parseProperties.simps split: if_splits)
  with Suc.prems have "off + 2 + unat (frame ! (off + 1)) \<le> length frame"
    by (auto simp: parseProperties.simps Let_def readUInt8_def split: if_splits)
  then obtain pre a b eb tail where
    frame: "frame = pre @ a # b # eb @ tail" and lpre: "length pre = off"
    and leb: "length eb = unat (frame ! (off + 1))" and b: "b = frame ! (off + 1)"
    by (rule split_frame)
  from leb b have ub: "unat b = length eb" by simp
  let ?p = "\<lparr>epc = uint a, pdc = uint b, edt = (if eb = [] then 0 else int (beValue eb))\<rparr>"
  have "parseProperties (Suc m) (pre @ a # b # eb @ tail) (length pre) acc =
          parseProperties m (pre @ a # b # eb @ tail) (length pre + 2 + length eb) (acc @ [?p])"
    using ub by (rule parseProperties_step)
  then have "parseProperties (Suc m) frame off acc =
          parseProperties m frame (off + 2 + length eb) (acc @ [?p])"
    unfolding lpre frame [symmetric] .
  with Suc.prems have rec: "parseProperties m frame (off + 2 + length eb) (acc @ [?p]) = Inr ps"
    by simp
  have l2: "off + 2 + length eb \<le> length frame"
    using lpre by (subst frame) simp
  from Suc.IH [OF rec l2] obtain new where
    new: "ps = (acc @ [?p]) @ new" "length new = m" "\<forall>q\<in>set new. wireProperty q"
      "off + 2 + length eb + length (concat (map propertyBuffer new)) \<le> length frame"
      "concat (map propertyBuffer new)
               = take (length (concat (map propertyBuffer new))) (drop (off + 2 + length eb) frame)"
    by blast
  have w: "wireProperty ?p" and pb: "propertyBuffer ?p = a # b # eb"
    using parsed_property [of b eb a] ub by simp_all
  have d1: "drop off frame = a # b # eb @ tail"
    using lpre by (subst frame) simp
  have d2: "drop (off + 2 + length eb) frame = tail"
    using lpre by (subst frame) simp
  let ?xs = "concat (map propertyBuffer new)"
  have "?xs = take (length ?xs) tail" using new(5) unfolding d2 .
  then have "(a # b # eb) @ ?xs = take (length ((a # b # eb) @ ?xs)) (a # b # eb @ tail)"
    by (rule serialized_prefix)
  moreover have c: "concat (map propertyBuffer (?p # new)) = (a # b # eb) @ ?xs"
    by (simp only: pb list.map concat.simps)
  ultimately have
    "concat (map propertyBuffer (?p # new))
       = take (length (concat (map propertyBuffer (?p # new)))) (drop off frame)"
    unfolding d1 by (simp only:)
  moreover have "off + length (concat (map propertyBuffer (?p # new))) \<le> length frame"
    using new(4) unfolding c by simp
  moreover have "ps = acc @ (?p # new)" using new(1) by simp
  moreover have "length (?p # new) = Suc m" using new(2) by simp
  moreover have "\<forall>q\<in>set (?p # new). wireProperty q" using new(3) w by simp
  ultimately show ?case by blast
qed

section \<open>The fixed fields of a frame\<close>

lemma uint_byte_nonneg: "0 \<le> uint (b :: byte)"
  by simp

lemma read16_range: "0 \<le> uint (a :: byte) * 256 + uint (b :: byte)"
  "uint (a :: byte) * 256 + uint (b :: byte) \<le> 0xffff"
  using uint_byte_less [of a] uint_byte_less [of b] by simp_all

lemma read24_range: "0 \<le> (uint (a :: byte) * 256 + uint (b :: byte)) * 256 + uint (c :: byte)"
  "(uint (a :: byte) * 256 + uint (b :: byte)) * 256 + uint (c :: byte) \<le> 0xffffff"
  using uint_byte_less [of a] uint_byte_less [of b] uint_byte_less [of c] by simp_all

lemma div256: "(x * 256 + uint (b :: byte)) div 256 = x"
  using uint_byte_less [of b] by simp

lemma write16_read16:
  "writeUInt16BE (uint a * 256 + uint b) = Inr [a, b]"
proof -
  have hi: "(of_int ((uint a * 256 + uint b) div 256) :: byte) = a"
    by (simp only: div256) simp
  have lo: "(of_int (uint a * 256 + uint b) :: byte) = b"
    by (simp only: byte_of_int_low) simp
  have rng: "\<not> (uint a * 256 + uint b < 0 \<or> uint a * 256 + uint b > 0xffff)"
    using read16_range [of a b] by linarith
  show ?thesis
    by (simp only: writeUInt16BE_def rng if_False hi lo)
qed

lemma write24_read24:
  "writeUIntBE3 ((uint a * 256 + uint b) * 256 + uint c) = Inr [a, b, c]"
proof -
  let ?v = "(uint a * 256 + uint b) * 256 + uint c"
  have d: "?v div 256 = uint a * 256 + uint b" by (rule div256)
  have "?v div 65536 = ?v div 256 div 256"
    using zdiv_zmult2_eq [of 256 ?v 256] by simp
  then have "?v div 65536 = uint a" by (simp only: d div256)
  then have hi: "(of_int (?v div 65536) :: byte) = a" by simp
  have mid: "(of_int (?v div 256) :: byte) = b"
    by (simp only: d byte_of_int_low) simp
  have lo: "(of_int ?v :: byte) = c"
    by (simp only: byte_of_int_low) simp
  have rng: "\<not> (?v < 0 \<or> ?v > 0xffffff)"
    using read24_range [of a b c] by linarith
  show ?thesis
    by (simp only: writeUIntBE3_def rng if_False hi mid lo)
qed

lemma header_bytes:
  assumes "uint (a :: byte) * 256 + uint (b :: byte) = 0x1081"
  shows "a = 0x10" and "b = 0x81"
proof -
  have "uint a = 0x10 \<and> uint b = 0x81"
    using assms uint_byte_less [of a] uint_byte_less [of b] uint_byte_nonneg [of a] uint_byte_nonneg [of b]
    by presburger
  then have "uint a = uint (0x10 :: byte)" "uint b = uint (0x81 :: byte)" by simp_all
  then show "a = 0x10" and "b = 0x81" by (simp_all only: word_uint_eq_iff [symmetric])
qed

lemma read16_write16:
  assumes "0 \<le> t" and "t < 65536"
  shows "uint (of_int (t div 256) :: byte) * 256 + uint (of_int t :: byte) = t"
proof -
  have "t div 256 < 256" using assms by simp
  moreover have "0 \<le> t div 256" using assms by simp
  ultimately have "uint (of_int (t div 256) :: byte) = t div 256"
    by (simp add: uint_byte_of_int)
  moreover have "uint (of_int t :: byte) = t mod 256"
    by (simp add: uint_word_of_int)
  ultimately show ?thesis by simp
qed

lemma read24_write24:
  assumes "0 \<le> v" and "v < 16777216"
  shows "(uint (of_int (v div 65536) :: byte) * 256 + uint (of_int (v div 256) :: byte)) * 256
           + uint (of_int v :: byte) = v"
proof -
  have "v div 65536 < 256" "0 \<le> v div 65536" using assms by simp_all
  then have a: "uint (of_int (v div 65536) :: byte) = v div 65536"
    by (simp add: uint_byte_of_int)
  have b: "uint (of_int (v div 256) :: byte) = v div 256 mod 256"
    by (simp add: uint_word_of_int)
  have c: "uint (of_int v :: byte) = v mod 256"
    by (simp add: uint_word_of_int)
  have "v div 65536 = v div 256 div 256"
    using zdiv_zmult2_eq [of 256 v 256] by simp
  then show ?thesis unfolding a b c by simp
qed

lemma take12:
  assumes "12 \<le> length frame"
  shows "take 12 frame = [frame ! 0, frame ! 1, frame ! 2, frame ! 3, frame ! 4, frame ! 5,
           frame ! 6, frame ! 7, frame ! 8, frame ! 9, frame ! 10, frame ! 11]"
proof -
  have "take 12 frame = take 12 (map ((!) frame) [0..<length frame])"
    by (simp only: map_nth)
  also have "\<dots> = map ((!) frame) [0..<12]"
    using assms by (simp only: take_map) simp
  finally show ?thesis
    by (simp add: upt_rec numeral_eq_Suc)
qed

lemma parse_header:
  "parse (0x10 # 0x81 # t1 # t0 # s2 # s1 # s0 # d2 # d1 # d0 # e # c # body) =
     (case parseProperties (unat c)
             (0x10 # 0x81 # t1 # t0 # s2 # s1 # s0 # d2 # d1 # d0 # e # c # body) 12 [] of
        Inl err \<Rightarrow> Inl err
      | Inr ps \<Rightarrow>
          Inr \<lparr>tid = uint t1 * 256 + uint t0,
               seoj = (uint s2 * 256 + uint s1) * 256 + uint s0,
               deoj = (uint d2 * 256 + uint d1) * 256 + uint d0,
               esv = uint e, properties = ps\<rparr>)"
  by (simp add: parse_def readUInt16BE_def readUIntBE3_def readUInt8_def cong: sum.case_cong)

section \<open>Frames made by create\<close>

lemma edtBigInt_nonneg: "edtBigInt a = Inr v \<Longrightarrow> 0 \<le> v"
proof (cases a)
  case (EdtNumber x)
  assume "edtBigInt a = Inr v"
  with EdtNumber show ?thesis
    by (cases x) (auto split: if_splits)
next
  case (EdtBigInt w)
  assume "edtBigInt a = Inr v"
  with EdtBigInt show ?thesis by (auto split: if_splits)
next
  case EdtUndefined
  assume "edtBigInt a = Inr v"
  with EdtUndefined show ?thesis by simp
qed

lemma calculatedPdc_pos: "0 \<le> v \<Longrightarrow> 1 \<le> calculatedPdc v"
proof -
  assume "0 \<le> v"
  then have "toString16 v = toHex (nat v)" by (simp add: toString16_def)
  moreover have "1 \<le> (length (toHex (nat v)) + 1) div 2"
    using toHex_nonempty [of "nat v"] by (cases "toHex (nat v)") simp_all
  ultimately show ?thesis by (simp add: calculatedPdc_def)
qed

lemma calculatedPdc_upper: "0 \<le> v \<Longrightarrow> v < 256 ^ nat (calculatedPdc v)"
proof -
  assume v: "0 \<le> v"
  let ?h = "length (toHex (nat v))"
  from v have k: "nat (calculatedPdc v) = (?h + 1) div 2"
    by (simp add: calculatedPdc_def toString16_def)
  have "nat v < 16 ^ ?h" by (rule toHex_upper)
  also have "(16::nat) ^ ?h \<le> 16 ^ (2 * ((?h + 1) div 2))"
    by (rule power_increasing) simp_all
  also have "\<dots> = 256 ^ ((?h + 1) div 2)" by (simp only: pow256)
  finally have "nat v < 256 ^ nat (calculatedPdc v)" by (simp only: k)
  then have "int (nat v) < int (256 ^ nat (calculatedPdc v))" by (simp only: of_nat_less_iff)
  with v show ?thesis by simp
qed

lemma calculatedPdc_lower: "0 < v \<Longrightarrow> 256 ^ (nat (calculatedPdc v) - 1) \<le> v"
proof -
  assume v: "0 < v"
  let ?h = "length (toHex (nat v))"
  from v have k: "nat (calculatedPdc v) = (?h + 1) div 2"
    by (simp add: calculatedPdc_def toString16_def)
  have "(256::nat) ^ ((?h + 1) div 2 - 1) = 16 ^ (2 * ((?h + 1) div 2 - 1))" by (simp only: pow256)
  also have "\<dots> \<le> 16 ^ (?h - 1)"
  proof (rule power_increasing)
    show "2 * ((?h + 1) div 2 - 1) \<le> ?h - 1" by arith
    show "(1::nat) \<le> 16" by simp
  qed
  also have "\<dots> \<le> nat v"
  proof (rule toHex_lower)
    show "0 < nat v" using v by simp
  qed
  finally have "(256::nat) ^ (nat (calculatedPdc v) - 1) \<le> nat v" by (simp only: k)
  then have "int (256 ^ (nat (calculatedPdc v) - 1)) \<le> int (nat v)" by (simp only: of_nat_le_iff)
  with v show ?thesis by simp
qed

lemma createProperty_Inr:
  assumes "createProperty a = Inr p"
  shows "\<exists>v. edtBigInt (snd a) = Inr v \<and> p = \<lparr>epc = fst a, pdc = calculatedPdc v, edt = v\<rparr>"
  using assms by (auto simp: createProperty_def split: sum.splits)

lemma createProperty_fits:
  assumes "createProperty a = Inr p"
  shows "propertyFits p" and "1 \<le> pdc p" and "pdc p = calculatedPdc (edt p)" and "epc p = fst a"
proof -
  from createProperty_Inr [OF assms] obtain v where
    v: "edtBigInt (snd a) = Inr v" and p: "p = \<lparr>epc = fst a, pdc = calculatedPdc v, edt = v\<rparr>"
    by blast
  from v have nn: "0 \<le> v" by (rule edtBigInt_nonneg)
  show "propertyFits p"
    using nn calculatedPdc_upper [OF nn] by (simp add: propertyFits_def p)
  show "1 \<le> pdc p" using calculatedPdc_pos [OF nn] by (simp add: p)
  show "pdc p = calculatedPdc (edt p)" by (simp add: p)
  show "epc p = fst a" by (simp add: p)
qed

lemma createProperties_fits:
  assumes "createProperties as = Inr ps"
  shows "\<forall>p\<in>set ps. propertyFits p \<and> 1 \<le> pdc p \<and> pdc p = calculatedPdc (edt p)"
  using assms
proof (induction as arbitrary: ps)
  case Nil
  then show ?case by simp
next
  case (Cons a as)
  from Cons.prems obtain q qs where
    q: "createProperty a = Inr q" and qs: "createProperties as = Inr qs" and ps: "ps = q # qs"
    by (auto split: sum.splits)
  from Cons.IH [OF qs] createProperty_fits [OF q] show ?case by (auto simp: ps)
qed

lemma create_Inr:
  assumes "create r t s d e props = Inr F"
  shows "createProperties props = Inr (properties F)"
    and "tid F = (case t of None \<Rightarrow> randomTid r | Some x \<Rightarrow> x)"
    and "seoj F = s" and "deoj F = d" and "esv F = e"
  using assms by (auto simp: create_def split: sum.splits)

lemma length_propertyBuffer: "wireProperty p \<Longrightarrow> length (propertyBuffer p) = 2 + nat (pdc p)"
  by (simp add: propertyBuffer_wire)

lemma length_serialized:
  "\<forall>p\<in>set ps. wireProperty p \<Longrightarrow>
     length (concat (map propertyBuffer ps)) = (\<Sum>p\<leftarrow>ps. 2 + nat (pdc p))"
  by (induction ps) (simp_all add: length_propertyBuffer)

lemma roundTrip_wire:
  assumes t: "0 \<le> tid F" "tid F < 65536"
    and s: "0 \<le> seoj F" "seoj F < 16777216"
    and d: "0 \<le> deoj F" "deoj F < 16777216"
    and e: "0 \<le> esv F" "esv F < 256"
    and w: "\<forall>p\<in>set (properties F). wireProperty p"
    and n: "length (properties F) \<le> 255"
  shows "roundTrip F = Inr F"
proof -
  let ?t1 = "of_int (tid F div 256) :: byte" and ?t0 = "of_int (tid F) :: byte"
  let ?s2 = "of_int (seoj F div 65536) :: byte" and ?s1 = "of_int (seoj F div 256) :: byte"
  let ?s0 = "of_int (seoj F) :: byte"
  let ?d2 = "of_int (deoj F div 65536) :: byte" and ?d1 = "of_int (deoj F div 256) :: byte"
  let ?d0 = "of_int (deoj F) :: byte"
  let ?e = "of_int (esv F) :: byte" and ?c = "of_int (int (length (properties F))) :: byte"
  let ?hdr = "[0x10, 0x81, ?t1, ?t0, ?s2, ?s1, ?s0, ?d2, ?d1, ?d0, ?e, ?c]"
  let ?body = "concat (map propertyBuffer (properties F))"
  have wt: "writeUInt16BE (tid F) = Inr [?t1, ?t0]"
    using t by (simp add: writeUInt16BE_def)
  have ws: "writeUIntBE3 (seoj F) = Inr [?s2, ?s1, ?s0]"
    using s by (simp add: writeUIntBE3_def)
  have wd: "writeUIntBE3 (deoj F) = Inr [?d2, ?d1, ?d0]"
    using d by (simp add: writeUIntBE3_def)
  have buf: "toBuffer F = Inr (?hdr @ ?body @ [])"
    by (simp add: toBuffer_def wt ws wd fromArray1_def)
  have c: "unat ?c = length (properties F)"
    using n by (simp add: unat_of_nat take_bit_eq_mod)
  have "parseProperties (length (properties F)) (?hdr @ ?body @ []) (length ?hdr) []
          = Inr ([] @ properties F)"
    using w by (rule parseProperties_serialized)
  moreover have lh: "length ?hdr = 12" by simp
  ultimately have pp: "parseProperties (unat ?c) (?hdr @ ?body @ []) 12 [] = Inr (properties F)"
    by (simp only: c append_Nil)
  have rt: "uint ?t1 * 256 + uint ?t0 = tid F" using t by (rule read16_write16)
  have rs: "(uint ?s2 * 256 + uint ?s1) * 256 + uint ?s0 = seoj F" using s by (rule read24_write24)
  have rd: "(uint ?d2 * 256 + uint ?d1) * 256 + uint ?d0 = deoj F" using d by (rule read24_write24)
  have re: "uint ?e = esv F" using e by (rule uint_byte_of_int)
  have "parse (?hdr @ ?body @ []) =
          Inr \<lparr>tid = uint ?t1 * 256 + uint ?t0,
               seoj = (uint ?s2 * 256 + uint ?s1) * 256 + uint ?s0,
               deoj = (uint ?d2 * 256 + uint ?d1) * 256 + uint ?d0,
               esv = uint ?e, properties = properties F\<rparr>"
    using pp parse_header [of ?t1 ?t0 ?s2 ?s1 ?s0 ?d2 ?d1 ?d0 ?e ?c "?body @ []"]
    by (simp only: append_Cons append_Nil sum.case)
  then have "parse (?hdr @ ?body @ []) = Inr F"
    by (simp only: rt rs rd re) simp
  then show ?thesis
    by (simp only: roundTrip_def buf sum.case)
qed

lemma length_toHex_eq:
  assumes "0 < n" and "16 ^ (h - 1) \<le> n" and "n < 16 ^ h"
  shows "length (toHex n) = h"
proof -
  let ?l = "length (toHex n)"
  have "(16::nat) ^ (?l - 1) \<le> n" using assms(1) by (rule toHex_lower)
  also note assms(3)
  finally have a: "?l - 1 < h" by (simp add: power_strict_increasing_iff)
  have "(16::nat) ^ (h - 1) \<le> n" by (rule assms(2))
  also have "n < 16 ^ ?l" by (rule toHex_upper)
  finally have b: "h - 1 < ?l" by (simp add: power_strict_increasing_iff)
  have "0 < h" using assms by (cases h) auto
  with a b show ?thesis by arith
qed

lemma parse_one_empty_property:
  "parse (0x10 # 0x81 # t1 # t0 # s2 # s1 # s0 # d2 # d1 # d0 # e # 1 # a # 0 # tail) =
     Inr \<lparr>tid = uint t1 * 256 + uint t0,
          seoj = (uint s2 * 256 + uint s1) * 256 + uint s0,
          deoj = (uint d2 * 256 + uint d1) * 256 + uint d0,
          esv = uint e, properties = [\<lparr>epc = uint a, pdc = 0, edt = 0\<rparr>]\<rparr>"
proof -
  let ?pre = "[0x10, 0x81, t1, t0, s2, s1, s0, d2, d1, d0, e, 1 :: byte]"
  have lp: "length ?pre = 12" by simp
  have "unat (0 :: byte) = length ([] :: Buffer)" by simp
  then have "parseProperties (Suc 0) (?pre @ a # 0 # [] @ tail) (length ?pre) [] =
          parseProperties 0 (?pre @ a # 0 # [] @ tail) (length ?pre + 2 + length ([] :: Buffer))
             ([] @ [\<lparr>epc = uint a, pdc = uint (0 :: byte),
                      edt = (if ([] :: Buffer) = [] then 0 else int (beValue []))\<rparr>])"
    by (rule parseProperties_step)
  then have "parseProperties (Suc 0) (?pre @ a # 0 # [] @ tail) 12 [] =
          Inr [\<lparr>epc = uint a, pdc = 0, edt = 0\<rparr>]"
    unfolding lp by (simp add: parseProperties.simps(1))
  then have "parseProperties (unat (1 :: byte))
               (0x10 # 0x81 # t1 # t0 # s2 # s1 # s0 # d2 # d1 # d0 # e # 1 # a # 0 # tail) 12 [] =
          Inr [\<lparr>epc = uint a, pdc = 0, edt = 0\<rparr>]"
    by simp
  then show ?thesis
    by (simp only: parse_header sum.case)
qed

section \<open>Frames made by parse\<close>

lemma parse_Inr:
  assumes "parse frame = Inr F"
  shows "12 \<le> length frame"
    and "uint (frame ! 0) * 256 + uint (frame ! 1) = 0x1081"
    and "parseProperties (unat (frame ! 11)) frame 12 [] = Inr (properties F)"
    and "tid F = uint (frame ! 2) * 256 + uint (frame ! 3)"
    and "seoj F = (uint (frame ! 4) * 256 + uint (frame ! 5)) * 256 + uint (frame ! 6)"
    and "deoj F = (uint (frame ! 7) * 256 + uint (frame ! 8)) * 256 + uint (frame ! 9)"
    and "esv F = uint (frame ! 10)"
  using assms
  by (auto simp: parse_def readUInt16BE_def readUIntBE3_def readUInt8_def
           split: if_splits sum.splits)

lemma parse_toBuffer_prefix:
  assumes "parse frame = Inr F"
  shows "toBuffer F = Inr (take (12 + (\<Sum>p\<leftarrow>properties F. 2 + nat (pdc p))) frame)"
    and "12 + (\<Sum>p\<leftarrow>properties F. 2 + nat (pdc p)) \<le> length frame"
    and "\<forall>p\<in>set (properties F). wireProperty p"
    and "length (properties F) = unat (frame ! 11)"
proof -
  note p = parse_Inr [OF assms]
  let ?ps = "properties F"
  let ?body = "concat (map propertyBuffer ?ps)"
  from parseProperties_sound [OF p(3) p(1)] obtain new where
    new: "?ps = [] @ new" "length new = unat (frame ! 11)" "\<forall>q\<in>set new. wireProperty q"
      "12 + length (concat (map propertyBuffer new)) \<le> length frame"
      "concat (map propertyBuffer new)
         = take (length (concat (map propertyBuffer new))) (drop 12 frame)"
    by blast
  from new(1) have eq: "new = ?ps" by simp
  show w: "\<forall>p\<in>set ?ps. wireProperty p" using new(3) unfolding eq .
  show n: "length ?ps = unat (frame ! 11)" using new(2) unfolding eq .
  have len: "length ?body = (\<Sum>p\<leftarrow>?ps. 2 + nat (pdc p))"
    using w by (rule length_serialized)
  show "12 + (\<Sum>p\<leftarrow>?ps. 2 + nat (pdc p)) \<le> length frame"
    using new(4) unfolding eq len .
  have body: "?body = take (\<Sum>p\<leftarrow>?ps. 2 + nat (pdc p)) (drop 12 frame)"
    using new(5) unfolding eq len .
  have h: "frame ! 0 = 0x10" "frame ! 1 = 0x81"
    using header_bytes [OF p(2)] by simp_all
  have wt: "writeUInt16BE (tid F) = Inr [frame ! 2, frame ! 3]"
    unfolding p(4) by (rule write16_read16)
  have ws: "writeUIntBE3 (seoj F) = Inr [frame ! 4, frame ! 5, frame ! 6]"
    unfolding p(5) by (rule write24_read24)
  have wd: "writeUIntBE3 (deoj F) = Inr [frame ! 7, frame ! 8, frame ! 9]"
    unfolding p(6) by (rule write24_read24)
  have we: "fromArray1 (esv F) = [frame ! 10]"
    unfolding p(7) by (simp add: fromArray1_def)
  have wc: "fromArray1 (int (length ?ps)) = [frame ! 11]"
    unfolding n by (simp add: fromArray1_def)
  have "toBuffer F = Inr ([0x10, 0x81] @ [frame ! 2, frame ! 3] @ [frame ! 4, frame ! 5, frame ! 6]
          @ [frame ! 7, frame ! 8, frame ! 9] @ [frame ! 10] @ [frame ! 11] @ ?body)"
    by (simp only: toBuffer_def wt ws wd we wc sum.case)
  also have "[0x10, 0x81] @ [frame ! 2, frame ! 3] @ [frame ! 4, frame ! 5, frame ! 6]
          @ [frame ! 7, frame ! 8, frame ! 9] @ [frame ! 10] @ [frame ! 11] @ ?body
        = take 12 frame @ ?body"
    by (simp only: take12 [OF p(1)] h append_Cons append_Nil)
  also have "\<dots> = take (12 + (\<Sum>p\<leftarrow>?ps. 2 + nat (pdc p))) frame"
    by (simp only: body take_add)
  finally show "toBuffer F = Inr (take (12 + (\<Sum>p\<leftarrow>?ps. 2 + nat (pdc p))) frame)" .
qed

section \<open>Evaluation on concrete values\<close>

lemma toHex_examples:
  "toHex 0 = ''0''" "toHex 255 = ''ff''" "toHex 256 = ''100''" "toHex 0x1234 = ''1234''"
  by (simp_all add: toHex.simps hexDigit_def char_of_def bit_Suc_0_iff)

lemmas parse_eval =
  parse_def readUInt16BE_def readUIntBE3_def readUInt8_def parseProperties.simps Let_def
  subarray_def toStringHex_def BigInt0x_def hexDigit_def hexVal_def

lemmas toBuffer_eval =
  toBuffer_def writeUInt16BE_def writeUIntBE3_def fromArray1_def propertyBuffer_def
  edtBuffer_def alloc_def copy_def padStart_def toString16_def toHex_examples hexVal_def

section \<open>Properties of the codec\<close>

subsection \<open>Round trip of a constructed frame\<close>

text \<open>
  C1, as amended. For every frame \<open>F\<close> returned by \<open>create\<close> whose \<open>tid\<close> fits in 16 bits,
  whose \<open>seoj\<close> and \<open>deoj\<close> fit in 24 bits, whose \<open>esv\<close> fits in 8 bits, whose properties
  each have a code and a computed length that fit in 8 bits, and which has at most 255
  properties, parsing the bytes that \<open>toBuffer\<close> produces for \<open>F\<close> succeeds and yields \<open>F\<close> itself:
  the same four fields and the same properties (code, length, value) in the same order.
  The bound on the computed length is what the amendment adds.
\<close>

theorem create_roundTrip:
  assumes "create r t s d e props = Inr F"
    and "0 \<le> tid F \<and> tid F < 2 ^ 16"
    and "0 \<le> seoj F \<and> seoj F < 2 ^ 24"
    and "0 \<le> deoj F \<and> deoj F < 2 ^ 24"
    and "0 \<le> esv F \<and> esv F < 2 ^ 8"
    and "\<forall>p\<in>set (properties F). 0 \<le> epc p \<and> epc p < 2 ^ 8 \<and> pdc p < 2 ^ 8"
    and "length (properties F) \<le> 255"
  shows "roundTrip F = Inr F"
proof -
  have "\<forall>p\<in>set (properties F). propertyFits p \<and> 1 \<le> pdc p \<and> pdc p = calculatedPdc (edt p)"
    using create_Inr(1) [OF assms(1)] by (rule createProperties_fits)
  with assms(6) have "\<forall>p\<in>set (properties F). wireProperty p"
    by (auto simp: wireProperty_def)
  with assms(2-5,7) show ?thesis
    by (intro roundTrip_wire) simp_all
qed

text \<open>The theorem at a frame of two properties, one without a value and one of two bytes.\<close>

theorem create_roundTrip_witness:
  "create 0 (Some 1) 0x05FF01 0x028801 0x62 [(0xE7, EdtUndefined), (0xE0, EdtBigInt 0x1234)]
     = Inr \<lparr>tid = 1, seoj = 0x05FF01, deoj = 0x028801, esv = 0x62,
            properties = [\<lparr>epc = 0xE7, pdc = 1, edt = 0\<rparr>, \<lparr>epc = 0xE0, pdc = 2, edt = 0x1234\<rparr>]\<rparr>
   \<and> roundTrip \<lparr>tid = 1, seoj = 0x05FF01, deoj = 0x028801, esv = 0x62,
            properties = [\<lparr>epc = 0xE7, pdc = 1, edt = 0\<rparr>, \<lparr>epc = 0xE0, pdc = 2, edt = 0x1234\<rparr>]\<rparr>
     = Inr \<lparr>tid = 1, seoj = 0x05FF01, deoj = 0x028801, esv = 0x62,
            properties = [\<lparr>epc = 0xE7, pdc = 1, edt = 0\<rparr>, \<lparr>epc = 0xE0, pdc = 2, edt = 0x1234\<rparr>]\<rparr>"
proof -
  let ?F = "\<lparr>tid = 1, seoj = 0x05FF01, deoj = 0x028801, esv = 0x62,
            properties = [\<lparr>epc = 0xE7, pdc = 1, edt = 0\<rparr>, \<lparr>epc = 0xE0, pdc = 2, edt = 0x1234\<rparr>]\<rparr>"
  have c: "create 0 (Some 1) 0x05FF01 0x028801 0x62 [(0xE7, EdtUndefined), (0xE0, EdtBigInt 0x1234)]
             = Inr ?F"
    by (simp add: create_def createProperty_def calculatedPdc_def toString16_def toHex.simps)
  have "roundTrip ?F = Inr ?F"
    by (rule create_roundTrip [OF c]) simp_all
  with c show ?thesis by simp
qed

text \<open>
  Without the bound on the length the round trip fails: a value of 256 bytes (\<open>256 ^ 255\<close>)
  gets the length 256, \<open>Buffer.from([256])\<close> writes the length byte 0, and \<open>parse\<close> reads back
  a property of length 0 and value 0. Every field of the frame and the property's code fit
  their widths, and there is one property.
\<close>

theorem create_roundTrip_counterexample:
  "create 0 (Some 1) 0x05FF01 0x028801 0x62 [(0xE7, EdtBigInt (256 ^ 255))]
     = Inr \<lparr>tid = 1, seoj = 0x05FF01, deoj = 0x028801, esv = 0x62,
            properties = [\<lparr>epc = 0xE7, pdc = 256, edt = 256 ^ 255\<rparr>]\<rparr>
   \<and> roundTrip \<lparr>tid = 1, seoj = 0x05FF01, deoj = 0x028801, esv = 0x62,
            properties = [\<lparr>epc = 0xE7, pdc = 256, edt = 256 ^ 255\<rparr>]\<rparr>
     = Inr \<lparr>tid = 1, seoj = 0x05FF01, deoj = 0x028801, esv = 0x62,
            properties = [\<lparr>epc = 0xE7, pdc = 0, edt = 0\<rparr>]\<rparr>"
proof -
  let ?p = "\<lparr>epc = 0xE7, pdc = 256, edt = 256 ^ 255\<rparr>"
  let ?F = "\<lparr>tid = 1, seoj = 0x05FF01, deoj = 0x028801, esv = 0x62, properties = [?p]\<rparr>"
  have "length (toHex (256 ^ 255)) = 511"
  proof (rule length_toHex_eq)
    show "(0::nat) < 256 ^ 255" by simp
    show "(16::nat) ^ (511 - 1) \<le> 256 ^ 255" by (simp add: pow256)
    show "(256::nat) ^ 255 < 16 ^ 511" by (simp add: pow256)
  qed
  moreover have "toString16 (256 ^ 255) = toHex (256 ^ 255)"
    by (simp add: toString16_def nat_power_eq)
  ultimately have pdc: "calculatedPdc (256 ^ 255) = 256"
    by (simp only: calculatedPdc_def)
  have c: "create 0 (Some 1) 0x05FF01 0x028801 0x62 [(0xE7, EdtBigInt (256 ^ 255))] = Inr ?F"
    using pdc by (simp add: create_def createProperty_def)
  have "propertyBuffer ?p = 0xE7 # 0 # edtBuffer ?p"
    by (simp add: propertyBuffer_def fromArray1_def)
  then have "toBuffer ?F =
          Inr (0x10 # 0x81 # 0 # 1 # 0x05 # 0xFF # 0x01 # 0x02 # 0x88 # 0x01 # 0x62 # 1
                 # 0xE7 # 0 # edtBuffer ?p)"
    by (simp add: toBuffer_def writeUInt16BE_def writeUIntBE3_def fromArray1_def)
  then have "roundTrip ?F =
          Inr \<lparr>tid = 1, seoj = 0x05FF01, deoj = 0x028801, esv = 0x62,
            properties = [\<lparr>epc = 0xE7, pdc = 0, edt = 0\<rparr>]\<rparr>"
    by (simp add: roundTrip_def parse_one_empty_property)
  with c show ?thesis by (rule conjI)
qed

subsection \<open>Serializing a parsed frame\<close>

text \<open>
  C2, as amended. For every byte buffer \<open>b\<close> that \<open>parse\<close> accepts, serializing the resulting
  frame succeeds and reproduces the bytes of \<open>b\<close> that \<open>parse\<close> read: the twelve bytes of the
  fixed fields and, for each property, its two bytes of code and length and its value. Those
  bytes are a prefix of \<open>b\<close>; \<open>toBuffer(parse(b))\<close> is \<open>b\<close> itself exactly when \<open>b\<close> ends with its last
  property.
\<close>

theorem parse_toBuffer:
  assumes "parse frame = Inr F"
  shows "toBuffer F = Inr (take (12 + (\<Sum>p\<leftarrow>properties F. 2 + nat (pdc p))) frame)
         \<and> 12 + (\<Sum>p\<leftarrow>properties F. 2 + nat (pdc p)) \<le> length frame"
  using parse_toBuffer_prefix(1,2) [OF assms] by (rule conjI)

text \<open>A frame with one property of four bytes, followed by one further byte.\<close>

lemma parse_example_trailing:
  "parse [0x10, 0x81, 0x12, 0x34, 0x05, 0xFF, 0x01, 0x02, 0x88, 0x01, 0x72, 0x01,
          0xE7, 0x04, 0x00, 0x00, 0x01, 0x2C, 0xAA]
     = Inr \<lparr>tid = 0x1234, seoj = 0x05FF01, deoj = 0x028801, esv = 0x72,
            properties = [\<lparr>epc = 0xE7, pdc = 4, edt = 300\<rparr>]\<rparr>"
  by (simp add: parse_eval)

theorem parse_toBuffer_witness:
  "parse [0x10, 0x81, 0x12, 0x34, 0x05, 0xFF, 0x01, 0x02, 0x88, 0x01, 0x72, 0x01,
          0xE7, 0x04, 0x00, 0x00, 0x01, 0x2C, 0xAA]
     = Inr \<lparr>tid = 0x1234, seoj = 0x05FF01, deoj = 0x028801, esv = 0x72,
            properties = [\<lparr>epc = 0xE7, pdc = 4, edt = 300\<rparr>]\<rparr>
   \<and> toBuffer \<lparr>tid = 0x1234, seoj = 0x05FF01, deoj = 0x028801, esv = 0x72,
            properties = [\<lparr>epc = 0xE7, pdc = 4, edt = 300\<rparr>]\<rparr>
     = Inr [0x10, 0x81, 0x12, 0x34, 0x05, 0xFF, 0x01, 0x02, 0x88, 0x01, 0x72, 0x01,
          0xE7, 0x04, 0x00, 0x00, 0x01, 0x2C]"
  using parse_toBuffer [OF parse_example_trailing] parse_example_trailing by simp

text \<open>
  \<open>parse\<close> does not look at what follows the last property, so it accepts a buffer with
  trailing bytes, which \<open>toBuffer\<close> does not reproduce: here twelve bytes that announce no
  property, and a thirteenth byte.
\<close>

theorem parse_toBuffer_counterexample:
  "parse [0x10, 0x81, 0x00, 0x01, 0x05, 0xFF, 0x01, 0x02, 0x88, 0x01, 0x62, 0x00, 0xFF]
     = Inr \<lparr>tid = 0x0001, seoj = 0x05FF01, deoj = 0x028801, esv = 0x62, properties = []\<rparr>
   \<and> toBuffer \<lparr>tid = 0x0001, seoj = 0x05FF01, deoj = 0x028801, esv = 0x62, properties = []\<rparr>
     = Inr [0x10, 0x81, 0x00, 0x01, 0x05, 0xFF, 0x01, 0x02, 0x88, 0x01, 0x62, 0x00]
   \<and> toBuffer \<lparr>tid = 0x0001, seoj = 0x05FF01, deoj = 0x028801, esv = 0x62, properties = []\<rparr>
     \<noteq> Inr [0x10, 0x81, 0x00, 0x01, 0x05, 0xFF, 0x01, 0x02, 0x88, 0x01, 0x62, 0x00, 0xFF]"
  by (simp add: parse_eval toBuffer_eval)

subsection \<open>A value wider than its length\<close>

text \<open>
  C3, as amended. For every property whose length is not negative and whose value needs more
  than \<open>length\<close> bytes (\<open>value \<ge> 256 ^ length\<close>), the serialization still emits exactly
  \<open>length\<close> bytes after the code and the length. They are the leading bytes of the value's
  hexadecimal representation: \<open>padStart\<close> leaves the longer string as it is, and \<open>copy\<close> stops
  when the target of \<open>length\<close> bytes is full. So the emitted bytes are the first \<open>2 * length\<close>
  hexadecimal digits of the value, that is the value divided by \<open>16 ^ (h - 2 * length)\<close> where
  \<open>h\<close> is its number of hexadecimal digits; the low-order digits are dropped.
\<close>

theorem toBuffer_keeps_leading_bytes:
  assumes "0 \<le> pdc p" and "256 ^ nat (pdc p) \<le> edt p"
  shows "propertyBuffer p =
           of_int (epc p) # of_int (pdc p) #
             bigEndian (nat (pdc p))
               (nat (edt p) div 16 ^ (length (toString16 (edt p)) - 2 * nat (pdc p)))
         \<and> length (propertyBuffer p) = 2 + nat (pdc p)"
proof -
  have "(0::int) < 256 ^ nat (pdc p)" by simp
  with assms(2) have nn: "0 \<le> edt p" by linarith
  then have s: "toString16 (edt p) = toHex (nat (edt p))" by (simp add: toString16_def)
  have "edtBuffer p = bigEndian (nat (pdc p))
               (nat (edt p) div 16 ^ (length (toString16 (edt p)) - 2 * nat (pdc p)))"
    unfolding s using nn assms(1) by (rule edtBuffer_general)
  then show ?thesis
    by (simp add: propertyBuffer_def fromArray1_def)
qed

text \<open>The value \<open>0x1234\<close> with length 1 is written as the byte \<open>0x12\<close>.\<close>

theorem toBuffer_keeps_leading_bytes_witness:
  "(0::int) \<le> 1 \<and> (256::int) ^ nat 1 \<le> 0x1234
   \<and> propertyBuffer \<lparr>epc = 0xE7, pdc = 1, edt = 0x1234\<rparr> = [0xE7, 0x01, 0x12]"
proof -
  have "toString16 0x1234 = ''1234''" by (simp add: toString16_def toHex_examples)
  then show ?thesis
    using toBuffer_keeps_leading_bytes [of "\<lparr>epc = 0xE7, pdc = 1, edt = 0x1234\<rparr>"]
    by simp
qed

text \<open>
  The low-order byte of \<open>0x1234\<close>, which is \<open>0x1234 mod 256 = 0x34\<close>, is not what is
  emitted.
\<close>

theorem toBuffer_low_order_counterexample:
  "propertyBuffer \<lparr>epc = 0xE7, pdc = 1, edt = 0x1234\<rparr> = [0xE7, 0x01, 0x12]
   \<and> bigEndian 1 (0x1234 mod 256 ^ 1) = [0x34]
   \<and> propertyBuffer \<lparr>epc = 0xE7, pdc = 1, edt = 0x1234\<rparr>
       \<noteq> [0xE7, 0x01] @ bigEndian 1 (0x1234 mod 256 ^ 1)"
  by (simp add: toBuffer_eval)

subsection \<open>Response validation\<close>

text \<open>
  C4. \<open>isValidResponse(self, candidate)\<close> is true if and only if the candidate's source object
  is the destination object of \<open>self\<close>, its destination object is the source object of \<open>self\<close>
  and both have the same transaction id. Changing one of these three fields of a valid
  candidate makes the result false; the candidate's service code and properties do not
  affect the result.
\<close>

theorem isValidResponse_iff:
  "(isValidResponse self candidate \<longleftrightarrow>
      seoj candidate = deoj self \<and> deoj candidate = seoj self \<and> tid candidate = tid self)
   \<and> (isValidResponse self candidate \<and> x \<noteq> seoj candidate
        \<longrightarrow> \<not> isValidResponse self (candidate\<lparr>seoj := x\<rparr>))
   \<and> (isValidResponse self candidate \<and> x \<noteq> deoj candidate
        \<longrightarrow> \<not> isValidResponse self (candidate\<lparr>deoj := x\<rparr>))
   \<and> (isValidResponse self candidate \<and> x \<noteq> tid candidate
        \<longrightarrow> \<not> isValidResponse self (candidate\<lparr>tid := x\<rparr>))
   \<and> isValidResponse self (candidate\<lparr>esv := y, properties := ps\<rparr>)
        = isValidResponse self candidate"
  by (auto simp: isValidResponse_def)

text \<open>A request, its response, and the response with another transaction id.\<close>

theorem isValidResponse_iff_witness:
  "isValidResponse
     \<lparr>tid = 7, seoj = 0x05FF01, deoj = 0x028801, esv = 0x62, properties = []\<rparr>
     \<lparr>tid = 7, seoj = 0x028801, deoj = 0x05FF01, esv = 0x72,
      properties = [\<lparr>epc = 0xE7, pdc = 1, edt = 5\<rparr>]\<rparr>
   \<and> (8::int) \<noteq> 7
   \<and> \<not> isValidResponse
     \<lparr>tid = 7, seoj = 0x05FF01, deoj = 0x028801, esv = 0x62, properties = []\<rparr>
     \<lparr>tid = 8, seoj = 0x028801, deoj = 0x05FF01, esv = 0x72,
      properties = [\<lparr>epc = 0xE7, pdc = 1, edt = 5\<rparr>]\<rparr>"
  using isValidResponse_iff
    [of "\<lparr>tid = 7, seoj = 0x05FF01, deoj = 0x028801, esv = 0x62, properties = []\<rparr>"
        "\<lparr>tid = 7, seoj = 0x028801, deoj = 0x05FF01, esv = 0x72,
          properties = [\<lparr>epc = 0xE7, pdc = 1, edt = 5\<rparr>]\<rparr>" 8]
  by simp

subsection \<open>The computed length\<close>

text \<open>
  C5. For every property input that \<open>create\<close> accepts, the computed length is the ceiling of
  half the number of hexadecimal digits of the value, which is the least number of bytes
  that hold the value, and at least one: the value is below \<open>256 ^ length\<close>, and a positive
  value is at least \<open>256 ^ (length - 1)\<close>. An omitted value is the integer 0 with length 1;
  the value 0 has length 1, the value 255 has length 1 and the value 256 has length 2.
\<close>

theorem createProperty_length:
  "(createProperty (c, a) = Inr p \<longrightarrow>
      epc p = c
      \<and> pdc p = \<lceil>real (length (toString16 (edt p))) / 2\<rceil>
      \<and> 1 \<le> pdc p \<and> 0 \<le> edt p \<and> edt p < 256 ^ nat (pdc p)
      \<and> (0 < edt p \<longrightarrow> 256 ^ (nat (pdc p) - 1) \<le> edt p))
   \<and> createProperty (c, EdtUndefined) = Inr \<lparr>epc = c, pdc = 1, edt = 0\<rparr>
   \<and> createProperty (c, EdtNumber (Finite 0)) = Inr \<lparr>epc = c, pdc = 1, edt = 0\<rparr>
   \<and> createProperty (c, EdtBigInt 0) = Inr \<lparr>epc = c, pdc = 1, edt = 0\<rparr>
   \<and> createProperty (c, EdtNumber (Finite 255)) = Inr \<lparr>epc = c, pdc = 1, edt = 255\<rparr>
   \<and> createProperty (c, EdtBigInt 255) = Inr \<lparr>epc = c, pdc = 1, edt = 255\<rparr>
   \<and> createProperty (c, EdtNumber (Finite 256)) = Inr \<lparr>epc = c, pdc = 2, edt = 256\<rparr>
   \<and> createProperty (c, EdtBigInt 256) = Inr \<lparr>epc = c, pdc = 2, edt = 256\<rparr>"
proof -
  have general: "epc p = c
      \<and> pdc p = \<lceil>real (length (toString16 (edt p))) / 2\<rceil>
      \<and> 1 \<le> pdc p \<and> 0 \<le> edt p \<and> edt p < 256 ^ nat (pdc p)
      \<and> (0 < edt p \<longrightarrow> 256 ^ (nat (pdc p) - 1) \<le> edt p)"
    if ok: "createProperty (c, a) = Inr p"
  proof -
    note f = createProperty_fits [OF ok]
    have "pdc p = int ((length (toString16 (edt p)) + 1) div 2)"
      using f(3) by (simp add: calculatedPdc_def)
    also have "\<dots> = \<lceil>real (length (toString16 (edt p))) / 2\<rceil>"
      by linarith
    finally have "pdc p = \<lceil>real (length (toString16 (edt p))) / 2\<rceil>" .
    moreover have "0 < edt p \<longrightarrow> 256 ^ (nat (pdc p) - 1) \<le> edt p"
      using calculatedPdc_lower [of "edt p"] f(3) by simp
    ultimately show ?thesis
      using f by (simp add: propertyFits_def)
  qed
  have ex: "calculatedPdc 0 = 1" "calculatedPdc 255 = 1" "calculatedPdc 256 = 2"
    by (simp_all add: calculatedPdc_def toString16_def toHex_examples)
  have examples:
    "createProperty (c, EdtUndefined) = Inr \<lparr>epc = c, pdc = 1, edt = 0\<rparr>
     \<and> createProperty (c, EdtNumber (Finite 0)) = Inr \<lparr>epc = c, pdc = 1, edt = 0\<rparr>
     \<and> createProperty (c, EdtBigInt 0) = Inr \<lparr>epc = c, pdc = 1, edt = 0\<rparr>
     \<and> createProperty (c, EdtNumber (Finite 255)) = Inr \<lparr>epc = c, pdc = 1, edt = 255\<rparr>
     \<and> createProperty (c, EdtBigInt 255) = Inr \<lparr>epc = c, pdc = 1, edt = 255\<rparr>
     \<and> createProperty (c, EdtNumber (Finite 256)) = Inr \<lparr>epc = c, pdc = 2, edt = 256\<rparr>
     \<and> createProperty (c, EdtBigInt 256) = Inr \<lparr>epc = c, pdc = 2, edt = 256\<rparr>"
    by (simp add: createProperty_def ex)
  from general examples show ?thesis by blast
qed

subsection \<open>The example frame\<close>

text \<open>
  C9. The fourteen bytes \<open>10 81 00 01 05 FF 01 02 88 01 62 01 E7 00\<close> are parsed into the
  frame with transaction id \<open>0x0001\<close>, source object \<open>0x05FF01\<close>, destination object
  \<open>0x028801\<close>, service code \<open>0x62\<close> and the one property of code \<open>0xE7\<close>, length 0 and value
  0; serializing that frame gives the same fourteen bytes.
\<close>

theorem parse_example:
  "parse [0x10, 0x81, 0x00, 0x01, 0x05, 0xFF, 0x01, 0x02, 0x88, 0x01, 0x62, 0x01, 0xE7, 0x00]
     = Inr \<lparr>tid = 0x0001, seoj = 0x05FF01, deoj = 0x028801, esv = 0x62,
            properties = [\<lparr>epc = 0xE7, pdc = 0, edt = 0\<rparr>]\<rparr>
   \<and> toBuffer \<lparr>tid = 0x0001, seoj = 0x05FF01, deoj = 0x028801, esv = 0x62,
            properties = [\<lparr>epc = 0xE7, pdc = 0, edt = 0\<rparr>]\<rparr>
     = Inr [0x10, 0x81, 0x00, 0x01, 0x05, 0xFF, 0x01, 0x02, 0x88, 0x01, 0x62, 0x01, 0xE7, 0x00]"
  by (simp add: parse_eval toBuffer_eval)

end
